theory Spec2Isabelle
  imports Main "HOL-Library.Multiset"
begin

section \<open>Filename sanitisation\<close>

text \<open>
  Python strings are modelled as \<open>string\<close>; every \<open>char\<close> stands for one code point
  below 256, so \<open>length\<close> is Python's \<open>len\<close> on such text.

  \<open>sanitize_filename\<close> is the same function in \<open>rename_pdfs.py\<close> and \<open>renamepdf.py\<close>:
  \<^verbatim>\<open>
    sanitized = re.sub(r'[\\/:*?"<>|]', '_', name)
    sanitized = re.sub(r'__+', '_', sanitized)
    sanitized = sanitized.strip(' _')
    if len(sanitized) > 200:
        sanitized = sanitized[:200]
    return sanitized
  \<close>
\<close>

definition invalid_chars :: "char list" where
  "invalid_chars = [CHR 0x5C, CHR ''/'', CHR '':'', CHR ''*'', CHR ''?'', CHR 0x22,
                    CHR ''<'', CHR ''>'', CHR ''|'']"

definition sub_invalid :: "string \<Rightarrow> string" where
  "sub_invalid name = map (\<lambda>c. if c \<in> set invalid_chars then CHR ''_'' else c) name"

function sub_underscores :: "string \<Rightarrow> string" where
  "sub_underscores [] = []"
| "sub_underscores (c # cs) =
     (if c = CHR ''_'' \<and> cs \<noteq> [] \<and> hd cs = CHR ''_'' 
      then CHR ''_'' # sub_underscores (dropWhile (\<lambda>x. x = CHR ''_'') cs)
      else c # sub_underscores cs)"
  by pat_completeness auto
termination
  by (relation "measure length") (auto simp: less_Suc_eq_le length_dropWhile_le)

definition lstrip_chars :: "char list \<Rightarrow> string \<Rightarrow> string" where
  "lstrip_chars cs s = dropWhile (\<lambda>c. c \<in> set cs) s"

definition rstrip_chars :: "char list \<Rightarrow> string \<Rightarrow> string" where
  "rstrip_chars cs s = rev (dropWhile (\<lambda>c. c \<in> set cs) (rev s))"

definition strip_chars :: "char list \<Rightarrow> string \<Rightarrow> string" where
  "strip_chars cs s = rstrip_chars cs (lstrip_chars cs s)"

definition sanitize_filename :: "string \<Rightarrow> string" where
  "sanitize_filename name =
     (let sanitized = sub_invalid name;
          sanitized = sub_underscores sanitized;
          sanitized = strip_chars '' _'' sanitized
      in if length sanitized > 200 then take 200 sanitized else sanitized)"

section \<open>Python string operations used by the scripts\<close>

text \<open>
  The library functions the scripts call are modelled from their documented behaviour on
  text whose code points are below 256. \<open>whitespace\<close> lists the characters that
  \<open>str.strip()\<close>, \<open>str.isspace()\<close> and the regular expression class \<open>\s\<close> treat as white
  space there.
\<close>

definition whitespace :: "char list" where
  "whitespace = [CHR 0x09, CHR 0x0A, CHR 0x0B, CHR 0x0C, CHR 0x0D, CHR 0x1C, CHR 0x1D,
                 CHR 0x1E, CHR 0x1F, CHR '' '', CHR 0x85, CHR 0xA0]"

definition py_strip :: "string \<Rightarrow> string" where
  "py_strip s = strip_chars whitespace s"

text \<open>\<open>s.split(c)\<close> for a one-character separator; the result is never empty.\<close>

fun py_split :: "char \<Rightarrow> string \<Rightarrow> string list" where
  "py_split c [] = [[]]"
| "py_split c (x # xs) =
     (if x = c then [] # py_split c xs
      else (case py_split c xs of w # ws \<Rightarrow> (x # w) # ws | [] \<Rightarrow> [[x]]))"

text \<open>\<open>s.replace(a, b)\<close> for one-character \<open>a\<close> and \<open>b\<close>.\<close>

definition py_replace :: "char \<Rightarrow> char \<Rightarrow> string \<Rightarrow> string" where
  "py_replace a b s = map (\<lambda>c. if c = a then b else c) s"

text \<open>\<open>sep.join(parts)\<close>.\<close>

fun py_join :: "string \<Rightarrow> string list \<Rightarrow> string" where
  "py_join sep [] = []"
| "py_join sep [x] = x"
| "py_join sep (x # y # ys) = x @ sep @ py_join sep (y # ys)"

text \<open>
  \<open>str.splitlines()\<close>: a line ends at \<open>\n\<close>, \<open>\r\<close>, \<open>\r\n\<close>, \<open>\v\<close>, \<open>\f\<close>, \<open>\x1c\<close>, \<open>\x1d\<close>,
  \<open>\x1e\<close> or \<open>\x85\<close>; text after the last line end is a line only when it is not empty.
  \<open>acc\<close> holds the current line, reversed.
\<close>

definition line_breaks :: "char list" where
  "line_breaks = [CHR 0x0A, CHR 0x0B, CHR 0x0C, CHR 0x0D, CHR 0x1C, CHR 0x1D, CHR 0x1E, CHR 0x85]"

fun splitlines_acc :: "string \<Rightarrow> string \<Rightarrow> string list" where
  "splitlines_acc acc [] = (if acc = [] then [] else [rev acc])"
| "splitlines_acc acc [c] =
     (if c \<in> set line_breaks then [rev acc] else [rev (c # acc)])"
| "splitlines_acc acc (c # d # cs) =
     (if c = CHR 0x0D \<and> d = CHR 0x0A then rev acc # splitlines_acc [] cs
      else if c \<in> set line_breaks then rev acc # splitlines_acc [] (d # cs)
      else splitlines_acc (c # acc) (d # cs))"

definition splitlines :: "string \<Rightarrow> string list" where
  "splitlines s = splitlines_acc [] s"

text \<open>\<open>str(n)\<close> for a non-negative integer: its decimal digits.\<close>

definition digit_char :: "nat \<Rightarrow> char" where
  "digit_char d = ''0123456789'' ! d"

fun str_nat :: "nat \<Rightarrow> string" where
  "str_nat n = (if n < 10 then [digit_char n] else str_nat (n div 10) @ [digit_char (n mod 10)])"

section \<open>Regular expressions\<close>

text \<open>
  The patterns of the scripts (and those \<open>datetime.strptime\<close> builds from a format) use
  literals, character classes, greedy repetition of a class, optional groups,
  alternation, one level of capturing groups and \<open>\b\<close>. \<open>rx\<close> is that fragment;
  \<open>rmatch\<close> lists the ways a pattern matches at a position in the order in which
  Python's backtracking matcher tries them, so the head of the list is the match that
  \<open>re.match\<close> reports.
\<close>

datatype rx =
    Eps
  | Lit string
  | Cls "char list"
  | Rep nat "nat option" "char list"
  | Seq rx rx
  | Alt rx rx
  | Opt rx
  | Grp nat rx
  | WordB

text \<open>
  A match in progress: the text consumed since the start of the match (\<open>group(0)\<close>),
  the text still ahead, and the captured groups.
\<close>

datatype mstate = MState (consumed: string) (remaining: string) (groups: "(nat \<times> string) list")

definition digits :: "char list" where
  "digits = ''0123456789''"

definition ascii_upper :: "char list" where
  "ascii_upper = ''ABCDEFGHIJKLMNOPQRSTUVWXYZ''"

definition ascii_lower :: "char list" where
  "ascii_lower = ''abcdefghijklmnopqrstuvwxyz''"

text \<open>\<open>\w\<close> on code points below 256: \<open>str.isalnum()\<close> or the underscore.\<close>

definition is_word :: "char \<Rightarrow> bool" where
  "is_word c =
     (c \<in> set digits \<or> c \<in> set ascii_upper \<or> c \<in> set ascii_lower \<or> c = CHR ''_'' \<or>
      (let n = (of_char c :: nat)
       in n \<in> set [0xAA, 0xB2, 0xB3, 0xB5, 0xB9, 0xBA, 0xBC, 0xBD, 0xBE] \<or>
          (0xC0 \<le> n \<and> n \<noteq> 0xD7 \<and> n \<noteq> 0xF7)))"

text \<open>Case folding of \<open>re.IGNORECASE\<close>; below 256 only A-Z fold onto pattern letters.\<close>

definition fold_case :: "char \<Rightarrow> char" where
  "fold_case c = (case map_of (zip ascii_upper ascii_lower) c of Some l \<Rightarrow> l | None \<Rightarrow> c)"

definition same_char :: "bool \<Rightarrow> char \<Rightarrow> char \<Rightarrow> bool" where
  "same_char ic p c = (if ic then fold_case p = fold_case c else p = c)"

fun lit_match :: "bool \<Rightarrow> string \<Rightarrow> string \<Rightarrow> bool" where
  "lit_match ic [] s = True"
| "lit_match ic (p # ps) [] = False"
| "lit_match ic (p # ps) (c # cs) = (same_char ic p c \<and> lit_match ic ps cs)"

definition advance :: "nat \<Rightarrow> mstate \<Rightarrow> mstate" where
  "advance n st =
     MState (consumed st @ take n (remaining st)) (drop n (remaining st)) (groups st)"

text \<open>\<open>pre\<close> is the character in front of the position where the match started.\<close>

definition at_boundary :: "char option \<Rightarrow> mstate \<Rightarrow> bool" where
  "at_boundary pre st =
     (let prev = (if consumed st = [] then pre else Some (last (consumed st)));
          left = (case prev of None \<Rightarrow> False | Some c \<Rightarrow> is_word c);
          right = (case remaining st of [] \<Rightarrow> False | c # _ \<Rightarrow> is_word c)
      in left \<noteq> right)"

definition set_group :: "nat \<Rightarrow> mstate \<Rightarrow> mstate \<Rightarrow> mstate" where
  "set_group i st st' =
     MState (consumed st') (remaining st')
       ((i, drop (length (consumed st)) (consumed st')) # groups st')"

primrec rmatch :: "bool \<Rightarrow> char option \<Rightarrow> rx \<Rightarrow> mstate \<Rightarrow> mstate list" where
  "rmatch ic pre Eps = (\<lambda>st. [st])"
| "rmatch ic pre (Lit l) =
     (\<lambda>st. if lit_match ic l (remaining st) then [advance (length l) st] else [])"
| "rmatch ic pre (Cls cs) =
     (\<lambda>st. case remaining st of [] \<Rightarrow> []
           | c # _ \<Rightarrow> if c \<in> set cs then [advance 1 st] else [])"
| "rmatch ic pre (Rep m n cs) =
     (\<lambda>st. let k = length (takeWhile (\<lambda>c. c \<in> set cs) (remaining st));
               k = (case n of None \<Rightarrow> k | Some n \<Rightarrow> min k n)
           in if k < m then [] else map (\<lambda>j. advance j st) (rev [m..<Suc k]))"
| "rmatch ic pre (Seq a b) =
     (\<lambda>st. concat (map (rmatch ic pre b) (rmatch ic pre a st)))"
| "rmatch ic pre (Alt a b) = (\<lambda>st. rmatch ic pre a st @ rmatch ic pre b st)"
| "rmatch ic pre (Opt a) = (\<lambda>st. rmatch ic pre a st @ [st])"
| "rmatch ic pre (Grp i a) = (\<lambda>st. map (set_group i st) (rmatch ic pre a st))"
| "rmatch ic pre WordB = (\<lambda>st. if at_boundary pre st then [st] else [])"

text \<open>\<open>re.search\<close>: the first match at the leftmost position that has one.\<close>

fun search_from :: "bool \<Rightarrow> rx \<Rightarrow> char option \<Rightarrow> string \<Rightarrow> mstate option" where
  "search_from ic r pre s =
     (case rmatch ic pre r (MState [] s []) of
        st # _ \<Rightarrow> Some st
      | [] \<Rightarrow> (case s of [] \<Rightarrow> None | c # cs \<Rightarrow> search_from ic r (Some c) cs))"

definition re_search :: "bool \<Rightarrow> rx \<Rightarrow> string \<Rightarrow> mstate option" where
  "re_search ic r text = search_from ic r None text"

text \<open>\<open>re.match\<close>: a match at the start of the text.\<close>

definition re_match :: "bool \<Rightarrow> rx \<Rightarrow> string \<Rightarrow> mstate option" where
  "re_match ic r text =
     (case rmatch ic None r (MState [] text []) of st # _ \<Rightarrow> Some st | [] \<Rightarrow> None)"

text \<open>\<open>re.fullmatch\<close>: the first way of matching that consumes the whole text.\<close>

definition re_fullmatch :: "bool \<Rightarrow> rx \<Rightarrow> string \<Rightarrow> mstate option" where
  "re_fullmatch ic r text =
     (case filter (\<lambda>st. remaining st = []) (rmatch ic None r (MState [] text [])) of
        st # _ \<Rightarrow> Some st | [] \<Rightarrow> None)"

definition group :: "mstate \<Rightarrow> nat \<Rightarrow> string" where
  "group m i = (if i = 0 then consumed m else (case map_of (groups m) i of Some g \<Rightarrow> g | None \<Rightarrow> []))"

fun seq :: "rx list \<Rightarrow> rx" where
  "seq [] = Eps"
| "seq [r] = r"
| "seq (r # rs) = Seq r (seq rs)"

fun alt :: "rx list \<Rightarrow> rx" where
  "alt [] = Eps"
| "alt [r] = r"
| "alt (r # rs) = Alt r (alt rs)"

section \<open>Dates: \<open>datetime.strptime\<close> and \<open>strftime\<close>\<close>

text \<open>
  \<open>datetime.strptime(data, format)\<close> turns the format into a regular expression (one named
  group per directive, white space in the format as \<open>\s+\<close>, every other character as
  itself), matches it case-insensitively at the start of the data, raises \<open>ValueError\<close>
  when it does not match or when data remains after the match, and raises \<open>ValueError\<close>
  when the year is 0 or the day does not exist in the month. Only the directives the
  scripts use are modelled: \<open>%Y\<close>, \<open>%m\<close>, \<open>%d\<close> and \<open>%B\<close> (English month names). The time
  of day plays no role and is left out of \<open>datetime\<close>.
\<close>

datatype error = ValueError | OSError

record datetime =
  year :: nat
  month :: nat
  day :: nat

definition nonzero_digits :: "char list" where
  "nonzero_digits = ''123456789''"

definition month_names :: "string list" where
  "month_names = [''january'', ''february'', ''march'', ''april'', ''may'', ''june'', ''july'',
                  ''august'', ''september'', ''october'', ''november'', ''december'']"

text \<open>The groups of the directives, numbered: 1 for \<open>Y\<close>, 2 for \<open>m\<close>, 3 for \<open>d\<close>, 4 for \<open>B\<close>.\<close>

fun directive :: "char \<Rightarrow> rx" where
  "directive c =
     (if c = CHR ''Y'' then Grp 1 (seq [Cls digits, Cls digits, Cls digits, Cls digits])
      else if c = CHR ''m'' then
        Grp 2 (alt [Seq (Lit ''1'') (Cls ''012''), Seq (Lit ''0'') (Cls nonzero_digits),
                    Cls nonzero_digits])
      else if c = CHR ''d'' then
        Grp 3 (alt [Seq (Lit ''3'') (Cls ''01''), Seq (Cls ''12'') (Cls digits),
                    Seq (Lit ''0'') (Cls nonzero_digits), Cls nonzero_digits,
                    Seq (Lit '' '') (Cls nonzero_digits)])
      else if c = CHR ''B'' then
        Grp 4 (alt (map Lit [''september'', ''february'', ''november'', ''december'', ''january'',
                            ''october'', ''august'', ''march'', ''april'', ''june'', ''july'',
                            ''may'']))
      else Cls [])"

fun format_regex :: "string \<Rightarrow> rx list" where
  "format_regex [] = []"
| "format_regex [c] =
     (if c \<in> set whitespace then [Rep 1 None whitespace] else [Lit [c]])"
| "format_regex (c # d # cs) =
     (if c = CHR ''%'' then directive d # format_regex cs
      else if c \<in> set whitespace then
        (if d \<in> set whitespace then format_regex (d # cs)
         else Rep 1 None whitespace # format_regex (d # cs))
      else Lit [c] # format_regex (d # cs))"

text \<open>\<open>int(s)\<close> on a string of decimal digits, possibly after white space.\<close>

definition digit_value :: "char \<Rightarrow> nat" where
  "digit_value c = of_char c - 48"

definition py_int :: "string \<Rightarrow> nat" where
  "py_int s = foldl (\<lambda>a c. 10 * a + digit_value c) 0 (py_strip s)"

fun index_of :: "'a \<Rightarrow> 'a list \<Rightarrow> nat option" where
  "index_of x [] = None"
| "index_of x (y # ys) =
     (if x = y then Some 0 else (case index_of x ys of None \<Rightarrow> None | Some i \<Rightarrow> Some (Suc i)))"

definition is_leap :: "nat \<Rightarrow> bool" where
  "is_leap y = (y mod 4 = 0 \<and> (y mod 100 \<noteq> 0 \<or> y mod 400 = 0))"

definition days_in_month :: "nat \<Rightarrow> nat \<Rightarrow> nat" where
  "days_in_month y m =
     (if m = 2 then (if is_leap y then 29 else 28)
      else if m \<in> set [4, 6, 9, 11] then 30 else 31)"

definition strptime :: "string \<Rightarrow> string \<Rightarrow> error + datetime" where
  "strptime data_string fmt =
     (case re_match True (seq (format_regex fmt)) data_string of
        None \<Rightarrow> Inl ValueError
      | Some found \<Rightarrow>
          if remaining found \<noteq> [] then Inl ValueError
          else
            let y = (case map_of (groups found) 1 of Some g \<Rightarrow> py_int g | None \<Rightarrow> 1900);
                m = (case map_of (groups found) 4 of
                       Some g \<Rightarrow> (case index_of (map fold_case g) month_names of
                                    Some i \<Rightarrow> Suc i | None \<Rightarrow> 1)
                     | None \<Rightarrow> (case map_of (groups found) 2 of Some g \<Rightarrow> py_int g | None \<Rightarrow> 1));
                d = (case map_of (groups found) 3 of Some g \<Rightarrow> py_int g | None \<Rightarrow> 1)
            in if y < 1 \<or> d > days_in_month y m then Inl ValueError
               else Inr \<lparr>year = y, month = m, day = d\<rparr>)"

text \<open>
  \<open>dt.strftime('%Y-%m-%d')\<close>: month and day are padded to two digits; the year is
  printed as the C library prints it, without padding (Linux).
\<close>

definition pad2 :: "nat \<Rightarrow> string" where
  "pad2 n = (if n < 10 then CHR ''0'' # str_nat n else str_nat n)"

definition strftime :: "datetime \<Rightarrow> string" where
  "strftime dt = str_nat (year dt) @ ''-'' @ pad2 (month dt) @ ''-'' @ pad2 (day dt)"

section \<open>The pattern strategy: \<open>generate_new_name_from_content\<close> (\<open>rename_pdfs.py\<close>)\<close>

definition id_chars :: "char list" where
  "id_chars = ascii_upper @ ascii_lower @ digits @ ''-''"

text \<open>\<open>\s*[#:]?\s*([A-Za-z0-9-]+)\<close>, the tail shared by the first two patterns.\<close>

definition number_tail :: "rx list" where
  "number_tail = [Rep 0 None whitespace, Rep 0 (Some 1) ''#:'', Rep 0 None whitespace,
                  Grp 1 (Rep 1 None id_chars)]"

definition invoice_patterns :: "(rx \<times> string) list" where
  "invoice_patterns =
     [(seq (Alt (Lit ''invoice'') (Lit ''inv'') # number_tail), ''Invoice''),
      (seq (Alt (Lit ''order'') (Lit ''po'') # number_tail), ''Order''),
      (seq [Lit ''Ref'', Rep 0 (Some 1) ''#:'', Rep 0 None whitespace,
            Grp 1 (Rep 1 None id_chars)], ''Ref'')]"

definition month_alternatives :: "rx" where
  "month_alternatives =
     alt [Seq (Lit ''Jan'') (Opt (Lit ''uary'')), Seq (Lit ''Feb'') (Opt (Lit ''ruary'')),
          Seq (Lit ''Mar'') (Opt (Lit ''ch'')), Seq (Lit ''Apr'') (Opt (Lit ''il'')),
          Lit ''May'', Seq (Lit ''Jun'') (Opt (Lit ''e'')), Seq (Lit ''Jul'') (Opt (Lit ''y'')),
          Seq (Lit ''Aug'') (Opt (Lit ''ust'')), Seq (Lit ''Sep'') (Opt (Lit ''tember'')),
          Seq (Lit ''Oct'') (Opt (Lit ''ober'')), Seq (Lit ''Nov'') (Opt (Lit ''ember'')),
          Seq (Lit ''Dec'') (Opt (Lit ''ember''))]"

definition date_patterns :: "rx list" where
  "date_patterns =
     [seq [WordB, Grp 1 (seq [Rep 4 (Some 4) digits, Cls ''-./'', Rep 1 (Some 2) digits,
                              Cls ''-./'', Rep 1 (Some 2) digits]), WordB],
      seq [WordB, Grp 1 (seq [Rep 1 (Some 2) digits, Cls ''-./'', Rep 1 (Some 2) digits,
                              Cls ''-./'', Rep 2 (Some 4) digits]), WordB],
      seq [WordB, Grp 1 month_alternatives, Rep 1 None whitespace, Rep 1 (Some 2) digits,
           Lit '','', Rep 1 None whitespace, Rep 4 (Some 4) digits, WordB]]"

text \<open>\<open>s.split(c)[0]\<close>.\<close>

definition split_first :: "char \<Rightarrow> string \<Rightarrow> string" where
  "split_first c s = (case py_split c s of w # _ \<Rightarrow> w | [] \<Rightarrow> [])"

text \<open>
  The loop over \<open>invoice_patterns\<close> (lines 58-65); the result is \<open>new_name_parts\<close> after
  the loop.
\<close>

fun invoice_loop :: "(rx \<times> string) list \<Rightarrow> string \<Rightarrow> string list" where
  "invoice_loop [] text_content = []"
| "invoice_loop ((pattern, prefix) # rest) text_content =
     (case re_search True pattern text_content of
        None \<Rightarrow> invoice_loop rest text_content
      | Some m \<Rightarrow>
          let part = py_strip (group m 1)
          in if length part > 3 \<and> re_fullmatch False (Rep 4 (Some 4) digits) part = None
             then [prefix @ ''-'' @ part]
             else invoice_loop rest text_content)"

text \<open>\<open>match.group(0).replace('/', '-').replace('.', '-')\<close>.\<close>

definition basic_conversion :: "mstate \<Rightarrow> string" where
  "basic_conversion m = py_replace CHR ''.'' CHR ''-'' (py_replace CHR ''/'' CHR ''-'' (group m 0))"

text \<open>
  The body of the \<open>try\<close> (lines 82-96): \<open>Inl\<close> when an exception reaches the outer
  \<open>except\<close>, otherwise the value given to \<open>found_date\<close> before the \<open>break\<close>.
\<close>

definition normalize_date :: "mstate \<Rightarrow> error + string" where
  "normalize_date m =
     (let dt_obj =
            (if CHR ''-'' \<in> set (group m 1) \<or> CHR ''.'' \<in> set (group m 1) then
               (if length (split_first CHR ''-'' (group m 1)) = 4 then
                  map_sum id Some (strptime (group m 1) ''%Y-%m-%d'')
                else (case strptime (group m 1) ''%m-%d-%Y'' of
                        Inr dt \<Rightarrow> Inr (Some dt)
                      | Inl e \<Rightarrow> map_sum id Some (strptime (group m 1) ''%d-%m-%Y'')))
             else if CHR '','' \<in> set (group m 0) then
               map_sum id Some (strptime (group m 0) ''%B %d, %Y'')
             else Inr None)
      in case dt_obj of
           Inl e \<Rightarrow> Inl e
         | Inr (Some dt) \<Rightarrow> Inr (strftime dt)
         | Inr None \<Rightarrow> Inr (basic_conversion m))"

text \<open>
  The loop over \<open>date_patterns\<close> (lines 75-99), with \<open>found_date\<close> as accumulator: a
  normalised date leaves the loop, an exception stores the converted match and goes on
  with the next pattern.
\<close>

fun date_loop :: "rx list \<Rightarrow> string \<Rightarrow> string option \<Rightarrow> string option" where
  "date_loop [] text_content found_date = found_date"
| "date_loop (pattern # rest) text_content found_date =
     (case re_search False pattern text_content of
        None \<Rightarrow> date_loop rest text_content found_date
      | Some m \<Rightarrow>
          (case normalize_date m of
             Inr d \<Rightarrow> Some d
           | Inl e \<Rightarrow> date_loop rest text_content (Some (basic_conversion m))))"

definition find_date :: "string \<Rightarrow> string option" where
  "find_date text_content = date_loop date_patterns text_content None"

text \<open>Lines 126-128: join the parts, replace spaces, sanitise.\<close>

definition combine_parts :: "string list \<Rightarrow> string" where
  "combine_parts new_name_parts =
     sanitize_filename (py_replace CHR '' '' CHR ''_'' (py_join ''_'' new_name_parts))"

definition generate_new_name_from_content :: "string \<Rightarrow> string option" where
  "generate_new_name_from_content text_content =
     (if text_content = [] then None
      else
        let new_name_parts = invoice_loop invoice_patterns text_content;
            new_name_parts =
              (case find_date text_content of
                 Some d \<Rightarrow> if d \<noteq> [] then new_name_parts @ [d] else new_name_parts
               | None \<Rightarrow> new_name_parts)
        in if new_name_parts = [] then
             let first_line = split_first CHR 0x0A (py_strip text_content)
             in if first_line \<noteq> [] then
                  let generic_title = py_strip (take 50 first_line)
                  in Some (combine_parts (if generic_title \<noteq> [] then [generic_title] else []))
                else None
           else Some (combine_parts new_name_parts))"

section \<open>The last-line and service strategies (\<open>renamepdf.py\<close>)\<close>

definition is_valid_filename :: "string \<Rightarrow> bool" where
  "is_valid_filename name =
     (re_fullmatch False (Rep 1 None (ascii_upper @ ascii_lower @ digits @ '' _'')) name \<noteq> None)"

definition get_last_line :: "string \<Rightarrow> string option" where
  "get_last_line text =
     (let lines = map py_strip (filter (\<lambda>line. py_strip line \<noteq> []) (splitlines text))
      in if lines = [] then None else Some (sanitize_filename (last lines)))"

text \<open>
  \<open>get_title_via_chatgpt\<close>: \<open>client\<close> is \<open>None\<close> when no API key is configured; otherwise it
  is the completion service, a function from the trimmed text to the content of its
  answer, or to \<open>None\<close> when the request raises.
\<close>

definition get_title_via_chatgpt :: "(string \<Rightarrow> string option) option \<Rightarrow> string \<Rightarrow> string option" where
  "get_title_via_chatgpt client text =
     (case client of
        None \<Rightarrow> None
      | Some service \<Rightarrow>
          (let trimmed = take 4000 text
           in case service trimmed of
                None \<Rightarrow> None
              | Some content \<Rightarrow> Some (sanitize_filename (py_strip content))))"

section \<open>The file system\<close>

text \<open>
  A file system maps path strings to entries; two paths name the same entry only when
  they are the same string (no links, no normalisation, POSIX separators). A PDF is
  modelled by the text \<open>pypdf\<close> extracts from each of its pages (the empty string for
  a page without text); \<open>Unreadable\<close> is a file whose reading raises.
\<close>

datatype entry = Directory | Pdf "string list" | Unreadable

type_synonym filesystem = "(string \<times> entry) list"

definition os_path_exists :: "filesystem \<Rightarrow> string \<Rightarrow> bool" where
  "os_path_exists fs path = (map_of fs path \<noteq> None)"

definition os_path_isdir :: "filesystem \<Rightarrow> string \<Rightarrow> bool" where
  "os_path_isdir fs path = (map_of fs path = Some Directory)"

text \<open>\<open>os.path.join(a, b)\<close> of \<open>posixpath\<close>.\<close>

definition os_path_join :: "string \<Rightarrow> string \<Rightarrow> string" where
  "os_path_join a b =
     (if b \<noteq> [] \<and> hd b = CHR ''/'' then b
      else if a = [] \<or> last a = CHR ''/'' then a @ b
      else a @ ''/'' @ b)"

text \<open>
  \<open>os.rename(src, dst)\<close>: \<open>OSError\<close> when \<open>src\<close> does not exist or \<open>dst\<close> is a directory;
  otherwise the entry moves to \<open>dst\<close>, replacing what was there.
\<close>

definition os_rename :: "filesystem \<Rightarrow> string \<Rightarrow> string \<Rightarrow> error + filesystem" where
  "os_rename fs src dst =
     (case map_of fs src of
        None \<Rightarrow> Inl OSError
      | Some e \<Rightarrow>
          if map_of fs dst = Some Directory then Inl OSError
          else Inr ((dst, e) # filter (\<lambda>(p, _). p \<noteq> src \<and> p \<noteq> dst) fs))"

text \<open>\<open>str.lower()\<close> on code points below 256.\<close>

definition py_lower :: "string \<Rightarrow> string" where
  "py_lower s =
     map (\<lambda>c. let n = (of_char c :: nat)
              in if (65 \<le> n \<and> n \<le> 90) \<or> (192 \<le> n \<and> n \<le> 222 \<and> n \<noteq> 215)
                 then char_of (n + 32) else c) s"

definition endswith :: "string \<Rightarrow> string \<Rightarrow> bool" where
  "endswith s suffix = (length suffix \<le> length s \<and> drop (length s - length suffix) s = suffix)"

text \<open>
  \<open>extract_text_from_pdf\<close> of \<open>rename_pdfs.py\<close> reads the first six pages, that of
  \<open>renamepdf.py\<close> (here \<open>extract_text_from_pdf2\<close>) reads all pages; both return \<open>None\<close>
  when reading raises.
\<close>

definition extract_text_from_pdf :: "filesystem \<Rightarrow> string \<Rightarrow> string option" where
  "extract_text_from_pdf fs pdf_path =
     (case map_of fs pdf_path of Some (Pdf pages) \<Rightarrow> Some (concat (take 6 pages)) | _ \<Rightarrow> None)"

definition extract_text_from_pdf2 :: "filesystem \<Rightarrow> string \<Rightarrow> string option" where
  "extract_text_from_pdf2 fs pdf_path =
     (case map_of fs pdf_path of Some (Pdf pages) \<Rightarrow> Some (concat pages) | _ \<Rightarrow> None)"

section \<open>Collision resolution\<close>

text \<open>
  Both scripts resolve a name collision with the same loop
  (\<open>rename_pdfs.py\<close> lines 165-175, \<open>renamepdf.py\<close> lines 121-127):
  \<^verbatim>\<open>
    counter = 1
    new_filename = f"{base}.pdf"
    new_file_path = os.path.join(folder_path, new_filename)
    while os.path.exists(new_file_path) and new_file_path != old_file_path:
        new_filename = f"{base}_{counter}.pdf"
        new_file_path = os.path.join(folder_path, new_filename)
        counter += 1
  \<close>
  \<open>suffixed base counter\<close> is \<open>f"{base}_{counter}.pdf"\<close>. The loop ends because the
  suffixed names are pairwise different and the file system has finitely many entries;
  the lemmas before \<open>collision_loop\<close> are what its termination proof needs.
\<close>

definition suffixed :: "string \<Rightarrow> nat \<Rightarrow> string" where
  "suffixed base counter = base @ ''_'' @ str_nat counter @ ''.pdf''"

lemma digit_char_inj: "d < 10 \<Longrightarrow> e < 10 \<Longrightarrow> digit_char d = digit_char e \<Longrightarrow> d = e"
proof -
  assume d: "d < 10" and e: "e < 10" and eq: "digit_char d = digit_char e"
  have dist: "distinct ''0123456789''" by simp
  have len: "length ''0123456789'' = 10" by simp
  from dist d e eq len show "d = e"
    unfolding digit_char_def by (metis nth_eq_iff_index_eq)
qed

lemma str_nat_not_Nil: "str_nat n \<noteq> []"
  by (subst str_nat.simps) simp

lemma str_nat_last: "last (str_nat n) = digit_char (n mod 10)"
  by (subst str_nat.simps) simp

lemma str_nat_butlast: "butlast (str_nat n) = (if n < 10 then [] else str_nat (n div 10))"
  by (subst str_nat.simps) simp

lemma str_nat_inj: "str_nat a = str_nat b \<Longrightarrow> a = b"
proof (induction a arbitrary: b rule: less_induct)
  case (less a)
  from less.prems have l: "digit_char (a mod 10) = digit_char (b mod 10)"
    using str_nat_last by metis
  then have m: "a mod 10 = b mod 10" by (intro digit_char_inj) auto
  from less.prems have bl: "butlast (str_nat a) = butlast (str_nat b)" by simp
  show ?case
  proof (cases "a < 10")
    case True
    with bl have "b < 10" by (auto simp: str_nat_butlast str_nat_not_Nil split: if_splits)
    with True m show ?thesis by simp
  next
    case False
    with bl have b10: "\<not> b < 10" by (auto simp: str_nat_butlast str_nat_not_Nil split: if_splits)
    with False bl have "str_nat (a div 10) = str_nat (b div 10)" by (simp add: str_nat_butlast)
    moreover from False have "a div 10 < a" by simp
    ultimately have "a div 10 = b div 10" using less.IH by blast
    with m show ?thesis by (metis div_mult_mod_eq)
  qed
qed

lemma suffixed_inj: "suffixed base j = suffixed base k \<Longrightarrow> j = k"
  by (simp add: suffixed_def str_nat_inj)

lemma os_path_join_suffixed_inj:
  "os_path_join folder (suffixed base j) = os_path_join folder (suffixed base k) \<Longrightarrow> j = k"
proof -
  assume eq: "os_path_join folder (suffixed base j) = os_path_join folder (suffixed base k)"
  have hd_eq: "hd (suffixed base j) = hd (suffixed base k)"
    by (cases base) (simp_all add: suffixed_def)
  have ne: "suffixed base j \<noteq> []" "suffixed base k \<noteq> []" by (simp_all add: suffixed_def)
  from eq hd_eq ne have "suffixed base j = suffixed base k"
    by (auto simp: os_path_join_def split: if_splits)
  then show ?thesis by (rule suffixed_inj)
qed

definition taken_from :: "filesystem \<Rightarrow> string \<Rightarrow> string \<Rightarrow> nat \<Rightarrow> nat set" where
  "taken_from fs folder base c = {k. c \<le> k \<and> os_path_exists fs (os_path_join folder (suffixed base k))}"

lemma finite_taken_from: "finite (taken_from fs folder base c)"
proof -
  let ?f = "\<lambda>k. os_path_join folder (suffixed base k)"
  have "inj ?f" by (rule injI) (rule os_path_join_suffixed_inj)
  then have "finite (?f -` dom (map_of fs))" by (intro finite_vimageI finite_dom_map_of)
  moreover have "taken_from fs folder base c \<subseteq> ?f -` dom (map_of fs)"
    by (auto simp: taken_from_def os_path_exists_def)
  ultimately show ?thesis by (rule rev_finite_subset)
qed

lemma taken_from_Suc:
  "taken_from fs folder base c =
     (if os_path_exists fs (os_path_join folder (suffixed base c)) then insert c (taken_from fs folder base (Suc c))
      else taken_from fs folder base (Suc c))"
  by (auto simp: taken_from_def Suc_le_eq le_less)

function collision_loop ::
  "filesystem \<Rightarrow> string \<Rightarrow> string \<Rightarrow> string \<Rightarrow> string \<Rightarrow> string \<Rightarrow> nat \<Rightarrow> string \<times> string" where
  "collision_loop fs folder_path old_file_path base new_filename new_file_path counter =
     (if os_path_exists fs new_file_path \<and> new_file_path \<noteq> old_file_path then
        collision_loop fs folder_path old_file_path base
          (suffixed base counter) (os_path_join folder_path (suffixed base counter)) (counter + 1)
      else (new_filename, new_file_path))"
  by pat_completeness auto
termination
proof (relation "measure (\<lambda>(fs, folder, old, base, nf, np, c).
          2 * card (taken_from fs folder base c) + (if os_path_exists fs np \<and> np \<noteq> old then 1 else 0))",
       goal_cases)
  case 1
  show ?case by simp
next
  case (2 fs folder_path old_file_path base new_filename new_file_path counter)
  have notin: "counter \<notin> taken_from fs folder_path base (Suc counter)"
    by (simp add: taken_from_def)
  have "card (taken_from fs folder_path base counter) =
        (if os_path_exists fs (os_path_join folder_path (suffixed base counter))
         then Suc (card (taken_from fs folder_path base (Suc counter)))
         else card (taken_from fs folder_path base (Suc counter)))"
    by (subst taken_from_Suc) (simp add: finite_taken_from notin)
  with 2 show ?case by auto
qed

declare collision_loop.simps [simp del]

section \<open>Renaming the PDFs of a folder\<close>

text \<open>
  The lines the scripts print per file, and the state of a run: the file system and
  the three counters of the summary. \<open>listing\<close> is what \<open>os.listdir(folder_path)\<close>
  returned, in the order in which it returned it.
\<close>

datatype message =
    FolderNotFound string
  | SkippingExtraction string
  | NoNewName string
  | UnsupportedCharacters string
  | AlreadyNamed string
  | WouldRename string string
  | Renamed string string
  | RenameFailed string string

record run_state =
  disk :: filesystem
  pdf_files_found :: nat
  renamed_count :: nat
  skipped_count :: nat
  printed :: "message list"

definition skip :: "message \<Rightarrow> run_state \<Rightarrow> run_state" where
  "skip msg st = st\<lparr>skipped_count := skipped_count st + 1, printed := printed st @ [msg]\<rparr>"

text \<open>
  Lines 165-194 of \<open>rename_pdfs.py\<close> and 121-143 of \<open>renamepdf.py\<close>: resolve the
  collision, then report, or rename and report.
\<close>

definition rename_to :: "bool \<Rightarrow> string \<Rightarrow> string \<Rightarrow> string \<Rightarrow> run_state \<Rightarrow> run_state" where
  "rename_to dry_run folder_path filename base st =
     (let old_file_path = os_path_join folder_path filename;
          (new_filename, new_file_path) =
             collision_loop (disk st) folder_path old_file_path base
               (base @ ''.pdf'') (os_path_join folder_path (base @ ''.pdf'')) 1
      in if new_file_path = old_file_path then skip (AlreadyNamed filename) st
         else if dry_run then
           st\<lparr>renamed_count := renamed_count st + 1,
              printed := printed st @ [WouldRename filename new_filename]\<rparr>
         else (case os_rename (disk st) old_file_path new_file_path of
                 Inr fs' \<Rightarrow>
                   st\<lparr>disk := fs', renamed_count := renamed_count st + 1,
                      printed := printed st @ [Renamed filename new_filename]\<rparr>
               | Inl e \<Rightarrow> skip (RenameFailed filename new_filename) st))"

text \<open>The body of the \<open>for\<close> loop of \<open>rename_pdf_files_in_folder\<close> (\<open>rename_pdfs.py\<close>).\<close>

definition process_file :: "bool \<Rightarrow> string \<Rightarrow> string \<Rightarrow> run_state \<Rightarrow> run_state" where
  "process_file dry_run folder_path filename st0 =
     (if \<not> endswith (py_lower filename) ''.pdf'' then st0
      else
        let st = st0\<lparr>pdf_files_found := pdf_files_found st0 + 1\<rparr>;
            old_file_path = os_path_join folder_path filename
        in case extract_text_from_pdf (disk st) old_file_path of
             None \<Rightarrow> skip (SkippingExtraction filename) st
           | Some text_content \<Rightarrow>
               (case generate_new_name_from_content text_content of
                  None \<Rightarrow> skip (NoNewName filename) st
                | Some new_name_base \<Rightarrow> rename_to dry_run folder_path filename new_name_base st))"

fun process_files :: "bool \<Rightarrow> string \<Rightarrow> string list \<Rightarrow> run_state \<Rightarrow> run_state" where
  "process_files dry_run folder_path [] st = st"
| "process_files dry_run folder_path (filename # listing) st =
     process_files dry_run folder_path listing (process_file dry_run folder_path filename st)"

definition rename_pdf_files_in_folder ::
  "filesystem \<Rightarrow> string list \<Rightarrow> string \<Rightarrow> bool \<Rightarrow> run_state" where
  "rename_pdf_files_in_folder fs0 listing folder_path dry_run =
     (let st = \<lparr>disk = fs0, pdf_files_found = 0, renamed_count = 0, skipped_count = 0,
                printed = []\<rparr>
      in if \<not> os_path_isdir fs0 folder_path then st\<lparr>printed := [FolderNotFound folder_path]\<rparr>
         else process_files dry_run folder_path listing st)"

text \<open>
  The body of the \<open>for\<close> loop of \<open>rename_pdfs_in_folder\<close> (\<open>renamepdf.py\<close>); \<open>client\<close> is
  the module's \<open>CLIENT\<close>.
\<close>

definition process_file2 ::
  "(string \<Rightarrow> string option) option \<Rightarrow> bool \<Rightarrow> string \<Rightarrow> string \<Rightarrow> run_state \<Rightarrow> run_state" where
  "process_file2 client dry_run folder_path filename st0 =
     (if \<not> endswith (py_lower filename) ''.pdf'' then st0
      else
        let st = st0\<lparr>pdf_files_found := pdf_files_found st0 + 1\<rparr>;
            old_file_path = os_path_join folder_path filename;
            text_content = extract_text_from_pdf2 (disk st) old_file_path
        in if text_content = None \<or> text_content = Some [] then
             skip (SkippingExtraction filename) st
           else
             let title = get_title_via_chatgpt client (the text_content)
             in if title = None \<or> title = Some [] then skip (NoNewName filename) st
                else if \<not> is_valid_filename (the title) then
                  skip (UnsupportedCharacters filename) st
                else rename_to dry_run folder_path filename (the title) st)"

fun process_files2 ::
  "(string \<Rightarrow> string option) option \<Rightarrow> bool \<Rightarrow> string \<Rightarrow> string list \<Rightarrow> run_state \<Rightarrow> run_state" where
  "process_files2 client dry_run folder_path [] st = st"
| "process_files2 client dry_run folder_path (filename # listing) st =
     process_files2 client dry_run folder_path listing
       (process_file2 client dry_run folder_path filename st)"

definition rename_pdfs_in_folder ::
  "(string \<Rightarrow> string option) option \<Rightarrow> filesystem \<Rightarrow> string list \<Rightarrow> string \<Rightarrow> bool \<Rightarrow> run_state" where
  "rename_pdfs_in_folder client fs0 listing folder_path dry_run =
     (let st = \<lparr>disk = fs0, pdf_files_found = 0, renamed_count = 0, skipped_count = 0,
                printed = []\<rparr>
      in if \<not> os_path_isdir fs0 folder_path then st\<lparr>printed := [FolderNotFound folder_path]\<rparr>
         else process_files2 client dry_run folder_path listing st)"

section \<open>Properties of sanitised names\<close>

text \<open>The shapes the specification speaks about, as executable predicates.\<close>

fun consecutive_underscores :: "string \<Rightarrow> bool" where
  "consecutive_underscores (c # d # cs) =
     ((c = CHR ''_'' \<and> d = CHR ''_'') \<or> consecutive_underscores (d # cs))"
| "consecutive_underscores _ = False"

definition starts_with_separator :: "string \<Rightarrow> bool" where
  "starts_with_separator s = (s \<noteq> [] \<and> hd s \<in> set '' _'')"

definition ends_with_separator :: "string \<Rightarrow> bool" where
  "ends_with_separator s = (s \<noteq> [] \<and> last s \<in> set '' _'')"

definition name_chars :: "char list" where
  "name_chars = ascii_upper @ ascii_lower @ digits @ '' _''"

lemma sub_invalid_clean: "c \<in> set (sub_invalid s) \<Longrightarrow> c \<notin> set invalid_chars"
  by (auto simp: sub_invalid_def invalid_chars_def)

lemma sub_underscores_subset: "set (sub_underscores s) \<subseteq> set s"
proof (induction s rule: sub_underscores.induct)
  case 1
  then show ?case by simp
next
  case (2 c cs)
  let ?d = "dropWhile (\<lambda>x. x = CHR ''_'') cs"
  have sub: "set ?d \<subseteq> set cs"
    by (meson set_dropWhileD subsetI)
  show ?case
  proof (cases "c = CHR ''_'' \<and> cs \<noteq> [] \<and> hd cs = CHR ''_''")
    case True
    with 2 have "set (sub_underscores ?d) \<subseteq> set ?d" by simp
    with sub True show ?thesis by auto
  next
    case False
    with 2 have "set (sub_underscores cs) \<subseteq> set cs" by simp
    with False show ?thesis by auto
  qed
qed

lemma consecutive_underscores_Cons:
  "consecutive_underscores (c # s) \<longleftrightarrow>
     (c = CHR ''_'' \<and> s \<noteq> [] \<and> hd s = CHR ''_'') \<or> consecutive_underscores s"
  by (cases s) auto

lemma sub_underscores_hd: "s \<noteq> [] \<Longrightarrow> sub_underscores s \<noteq> [] \<and> hd (sub_underscores s) = hd s"
  by (cases s) auto

lemma sub_underscores_Nil: "sub_underscores s = [] \<longleftrightarrow> s = []"
  by (cases s) auto

lemma sub_underscores_single: "\<not> consecutive_underscores (sub_underscores s)"
proof (induction s rule: sub_underscores.induct)
  case 1
  then show ?case by simp
next
  case (2 c cs)
  let ?d = "dropWhile (\<lambda>x. x = CHR ''_'') cs"
  have d: "?d \<noteq> [] \<Longrightarrow> hd ?d \<noteq> CHR ''_''"
    using hd_dropWhile [of "\<lambda>x. x = CHR ''_''" cs] by simp
  show ?case
  proof (cases "c = CHR ''_'' \<and> cs \<noteq> [] \<and> hd cs = CHR ''_''")
    case True
    with 2 have ih: "\<not> consecutive_underscores (sub_underscores ?d)" by simp
    from True have eq: "sub_underscores (c # cs) = CHR ''_'' # sub_underscores ?d" by simp
    have "hd (sub_underscores ?d) \<noteq> CHR ''_''" if ne: "sub_underscores ?d \<noteq> []"
    proof -
      from ne have "?d \<noteq> []" unfolding sub_underscores_Nil .
      with d sub_underscores_hd [of ?d] show ?thesis by simp
    qed
    with ih show ?thesis
      unfolding eq consecutive_underscores_Cons by blast
  next
    case False
    with 2 have ih: "\<not> consecutive_underscores (sub_underscores cs)" by simp
    from False have eq: "sub_underscores (c # cs) = c # sub_underscores cs" by auto
    have "c \<noteq> CHR ''_'' \<or> hd (sub_underscores cs) \<noteq> CHR ''_''"
      if ne: "sub_underscores cs \<noteq> []"
    proof -
      from ne have "cs \<noteq> []" unfolding sub_underscores_Nil .
      with False sub_underscores_hd [of cs] show ?thesis by auto
    qed
    with ih show ?thesis
      unfolding eq consecutive_underscores_Cons by blast
  qed
qed

lemma singleton_no_double_underscore: "[v] \<noteq> a @ ''__'' @ b"
  by (cases a) auto

lemma consecutive_underscores_iff:
  "consecutive_underscores s \<longleftrightarrow> (\<exists>a b. s = a @ ''__'' @ b)"
proof (induction s rule: consecutive_underscores.induct)
  case (1 c d cs)
  show ?case
  proof
    assume "consecutive_underscores (c # d # cs)"
    then consider "c = CHR ''_'' \<and> d = CHR ''_''" | "consecutive_underscores (d # cs)" by auto
    then show "\<exists>a b. c # d # cs = a @ ''__'' @ b"
    proof cases
      case 1
      then have "c # d # cs = [] @ ''__'' @ cs" by simp
      then show ?thesis by blast
    next
      case 2
      with 1 obtain a b where "d # cs = a @ ''__'' @ b" by auto
      then have "c # d # cs = (c # a) @ ''__'' @ b" by simp
      then show ?thesis by blast
    qed
  next
    assume "\<exists>a b. c # d # cs = a @ ''__'' @ b"
    then obtain a b where ab: "c # d # cs = a @ ''__'' @ b" by blast
    show "consecutive_underscores (c # d # cs)"
    proof (cases a)
      case Nil
      with ab show ?thesis by simp
    next
      case (Cons x a')
      with ab have "d # cs = a' @ ''__'' @ b" by simp
      then have "\<exists>a b. d # cs = a @ ''__'' @ b" by blast
      with 1 have "consecutive_underscores (d # cs)" by blast
      then show ?thesis by simp
    qed
  qed
qed (simp_all add: singleton_no_double_underscore)

lemma consecutive_underscores_append:
  "consecutive_underscores s \<Longrightarrow> consecutive_underscores (p @ s @ q)"
proof -
  assume "consecutive_underscores s"
  then obtain a b where "s = a @ ''__'' @ b" by (auto simp: consecutive_underscores_iff)
  then have "p @ s @ q = (p @ a) @ ''__'' @ (b @ q)" by simp
  then show ?thesis unfolding consecutive_underscores_iff by blast
qed

lemma strip_chars_decomp: "\<exists>p q. s = p @ strip_chars cs s @ q"
proof -
  let ?l = "lstrip_chars cs s"
  have 1: "s = takeWhile (\<lambda>c. c \<in> set cs) s @ ?l"
    by (simp add: lstrip_chars_def)
  have 2: "?l = rstrip_chars cs ?l @ rev (takeWhile (\<lambda>c. c \<in> set cs) (rev ?l))"
    unfolding rstrip_chars_def
    by (metis rev_append rev_rev_ident takeWhile_dropWhile_id)
  from 1 2 have "s = takeWhile (\<lambda>c. c \<in> set cs) s @ strip_chars cs s @ rev (takeWhile (\<lambda>c. c \<in> set cs) (rev ?l))"
    by (simp add: strip_chars_def)
  then show ?thesis by blast
qed

lemma strip_chars_hd: "strip_chars cs s \<noteq> [] \<Longrightarrow> hd (strip_chars cs s) \<notin> set cs"
proof -
  assume ne: "strip_chars cs s \<noteq> []"
  let ?l = "lstrip_chars cs s"
  from ne have lne: "?l \<noteq> []" by (auto simp: strip_chars_def rstrip_chars_def)
  then have h: "hd ?l \<notin> set cs" unfolding lstrip_chars_def using hd_dropWhile by metis
  have "?l = strip_chars cs s @ rev (takeWhile (\<lambda>c. c \<in> set cs) (rev ?l))"
    unfolding strip_chars_def rstrip_chars_def
    by (metis rev_append rev_rev_ident takeWhile_dropWhile_id)
  with ne have "hd ?l = hd (strip_chars cs s)" by (metis hd_append2)
  with h show ?thesis by simp
qed

lemma strip_chars_last: "strip_chars cs s \<noteq> [] \<Longrightarrow> last (strip_chars cs s) \<notin> set cs"
proof -
  assume ne: "strip_chars cs s \<noteq> []"
  let ?d = "dropWhile (\<lambda>c. c \<in> set cs) (rev (lstrip_chars cs s))"
  from ne have dne: "?d \<noteq> []" by (simp add: strip_chars_def rstrip_chars_def)
  then have "hd ?d \<notin> set cs" using hd_dropWhile by metis
  with dne show ?thesis by (simp add: strip_chars_def rstrip_chars_def last_rev)
qed

lemma sanitize_filename_no_invalid: "set (sanitize_filename s) \<inter> set invalid_chars = {}"
proof -
  let ?t = "strip_chars '' _'' (sub_underscores (sub_invalid s))"
  obtain p q where "sub_underscores (sub_invalid s) = p @ ?t @ q"
    using strip_chars_decomp by blast
  then have "set ?t \<subseteq> set (sub_underscores (sub_invalid s))"
    by (metis Un_upper1 Un_upper2 set_append subset_trans)
  also have "\<dots> \<subseteq> set (sub_invalid s)" by (rule sub_underscores_subset)
  finally have t: "set ?t \<inter> set invalid_chars = {}"
    using sub_invalid_clean by blast
  have "set (sanitize_filename s) \<subseteq> set ?t"
    by (auto simp: sanitize_filename_def Let_def dest: in_set_takeD)
  with t show ?thesis by blast
qed

lemma sanitize_filename_length: "length (sanitize_filename s) \<le> 200"
  by (simp add: sanitize_filename_def Let_def)

lemma sanitize_filename_single_underscores: "\<not> consecutive_underscores (sanitize_filename s)"
proof
  assume a: "consecutive_underscores (sanitize_filename s)"
  let ?u = "sub_underscores (sub_invalid s)"
  let ?t = "strip_chars '' _'' ?u"
  have "sanitize_filename s = take 200 ?t \<or> sanitize_filename s = ?t"
    by (simp add: sanitize_filename_def Let_def)
  then have "\<exists>q. ?t = sanitize_filename s @ q"
    by (metis append_Nil2 append_take_drop_id)
  then obtain q where q: "?t = [] @ sanitize_filename s @ q" by auto
  from a have "consecutive_underscores ?t"
    unfolding q by (rule consecutive_underscores_append)
  moreover obtain p r where "?u = p @ ?t @ r" using strip_chars_decomp by blast
  ultimately have "consecutive_underscores ?u"
    by (metis consecutive_underscores_append)
  then show False by (simp add: sub_underscores_single)
qed

lemma sanitize_filename_no_leading_separator: "\<not> starts_with_separator (sanitize_filename s)"
proof
  assume a: "starts_with_separator (sanitize_filename s)"
  let ?t = "strip_chars '' _'' (sub_underscores (sub_invalid s))"
  have eq: "sanitize_filename s = take 200 ?t \<or> sanitize_filename s = ?t"
    by (simp add: sanitize_filename_def Let_def)
  from a have ne: "sanitize_filename s \<noteq> []" by (simp add: starts_with_separator_def)
  with eq have tne: "?t \<noteq> []" by auto
  from eq ne have "hd (sanitize_filename s) = hd ?t" by (auto simp: hd_take)
  with a strip_chars_hd [OF tne] show False by (simp add: starts_with_separator_def)
qed

lemma sanitize_filename_short_no_trailing_separator:
  "length (strip_chars '' _'' (sub_underscores (sub_invalid s))) \<le> 200 \<Longrightarrow>
   \<not> ends_with_separator (sanitize_filename s)"
  using strip_chars_last [of "'' _''" "sub_underscores (sub_invalid s)"]
  by (auto simp: sanitize_filename_def Let_def ends_with_separator_def)

text \<open>
  A name that already has the shape of a sanitised name and no separator at its end
  is left as it is; so sanitising twice differs from sanitising once exactly when
  the first result ends with a space or an underscore.
\<close>

lemma sub_invalid_fixed: "set t \<inter> set invalid_chars = {} \<Longrightarrow> sub_invalid t = t"
  unfolding sub_invalid_def by (rule map_idI) auto

lemma sub_underscores_fixed: "\<not> consecutive_underscores t \<Longrightarrow> sub_underscores t = t"
proof (induction t rule: sub_underscores.induct)
  case 1
  show ?case by simp
next
  case (2 c cs)
  from "2.prems" have no: "\<not> (c = CHR ''_'' \<and> cs \<noteq> [] \<and> hd cs = CHR ''_'')"
    and rest: "\<not> consecutive_underscores cs"
    by (simp_all add: consecutive_underscores_Cons)
  from no rest "2.IH"(2) have "sub_underscores cs = cs" by blast
  with no show ?case by auto
qed

lemma dropWhile_fixed: "xs \<noteq> [] \<Longrightarrow> \<not> P (hd xs) \<Longrightarrow> dropWhile P xs = xs"
  by (cases xs) auto

lemma strip_chars_fixed:
  assumes "t = [] \<or> (hd t \<notin> set cs \<and> last t \<notin> set cs)"
  shows "strip_chars cs t = t"
proof (cases t)
  case Nil
  then show ?thesis by (simp add: strip_chars_def lstrip_chars_def rstrip_chars_def)
next
  case (Cons a as)
  with assms have h: "a \<notin> set cs" and l: "last t \<notin> set cs" by auto
  from Cons h have 1: "lstrip_chars cs t = t" by (simp add: lstrip_chars_def)
  from Cons have "rev t \<noteq> []" by simp
  moreover from Cons have "hd (rev t) = last t" by (simp add: hd_rev)
  ultimately have "dropWhile (\<lambda>c. c \<in> set cs) (rev t) = rev t"
    using l by (intro dropWhile_fixed) simp_all
  then have "rstrip_chars cs t = t" by (simp add: rstrip_chars_def)
  with 1 show ?thesis by (simp add: strip_chars_def)
qed

lemma sanitize_filename_fixed:
  assumes "set t \<inter> set invalid_chars = {}" "\<not> consecutive_underscores t"
    "\<not> starts_with_separator t" "\<not> ends_with_separator t" "length t \<le> 200"
  shows "sanitize_filename t = t"
proof -
  from assms(3,4) have "t = [] \<or> (hd t \<notin> set '' _'' \<and> last t \<notin> set '' _'')"
    unfolding starts_with_separator_def ends_with_separator_def by blast
  then have "strip_chars '' _'' t = t" by (rule strip_chars_fixed)
  with assms(1,2,5) show ?thesis
    by (simp add: sanitize_filename_def sub_invalid_fixed sub_underscores_fixed)
qed

lemma strip_chars_length: "length (strip_chars cs s) \<le> length s"
proof -
  obtain p q where "s = p @ strip_chars cs s @ q" using strip_chars_decomp by blast
  then have "length s = length p + length (strip_chars cs s) + length q"
    by (metis length_append add.assoc)
  then show ?thesis by simp
qed

lemma sub_underscores_length: "length (sub_underscores s) \<le> length s"
proof (induction s rule: sub_underscores.induct)
  case 1
  show ?case by simp
next
  case (2 c cs)
  have "length (dropWhile (\<lambda>x. x = CHR ''_'') cs) \<le> length cs" by (rule length_dropWhile_le)
  with 2 show ?case by (cases "c = CHR ''_'' \<and> cs \<noteq> [] \<and> hd cs = CHR ''_''") auto
qed

lemma sanitize_filename_idempotent_iff:
  "sanitize_filename (sanitize_filename s) = sanitize_filename s \<longleftrightarrow>
   \<not> ends_with_separator (sanitize_filename s)"
proof
  assume "\<not> ends_with_separator (sanitize_filename s)"
  then show "sanitize_filename (sanitize_filename s) = sanitize_filename s"
    by (intro sanitize_filename_fixed sanitize_filename_no_invalid
        sanitize_filename_single_underscores sanitize_filename_no_leading_separator
        sanitize_filename_length)
next
  assume eq: "sanitize_filename (sanitize_filename s) = sanitize_filename s"
  let ?u = "sanitize_filename s"
  have "length (strip_chars '' _'' (sub_underscores (sub_invalid ?u))) \<le> length (sub_invalid ?u)"
    using strip_chars_length sub_underscores_length order_trans by blast
  also have "\<dots> \<le> 200" by (simp add: sub_invalid_def sanitize_filename_length)
  finally have "\<not> ends_with_separator (sanitize_filename ?u)"
    by (rule sanitize_filename_short_no_trailing_separator)
  with eq show "\<not> ends_with_separator ?u" by simp
qed

section \<open>Sanitisation of a name longer than 200 characters\<close>

text \<open>
  The name below has 201 characters: 199 times \<open>a\<close>, an underscore and \<open>b\<close>. Stripping
  removes nothing from it; the cut to 200 characters that follows leaves the
  underscore at the end.
\<close>

definition long_name :: "string" where
  "long_name = replicate 199 CHR ''a'' @ ''_b''"

lemma sanitize_long_name: "sanitize_filename long_name = replicate 199 CHR ''a'' @ ''_''"
  unfolding long_name_def by code_simp

lemma sanitize_sanitize_long_name: "sanitize_filename (sanitize_filename long_name) = replicate 199 CHR ''a''"
  unfolding sanitize_long_name by code_simp

text \<open>
  C3 (sanitisation is idempotent) fails on \<open>long_name\<close>: sanitising the sanitised name
  strips the underscore that the cut to 200 characters left at its end.
\<close>

theorem sanitize_filename_not_idempotent_on_long_name:
  "sanitize_filename (sanitize_filename long_name) \<noteq> sanitize_filename long_name"
  unfolding sanitize_sanitize_long_name sanitize_long_name by code_simp

text \<open>
  C4 (a sanitised name never ends with a space or an underscore) fails on
  \<open>long_name\<close>: the result has exactly 200 characters and ends with an underscore.
\<close>

theorem sanitize_filename_trailing_underscore_on_long_name:
  "length (sanitize_filename long_name) = 200 \<and> ends_with_separator (sanitize_filename long_name)"
  unfolding sanitize_long_name ends_with_separator_def by simp

section \<open>What the collision loop returns\<close>

text \<open>
  A path is \<open>blocked\<close> for a file when the loop's condition holds for it: something
  exists there and it is not the file's own path. \<open>entries\<close> is the multiset of the
  entries of a file system, whatever their names.
\<close>

definition blocked :: "filesystem \<Rightarrow> string \<Rightarrow> string \<Rightarrow> bool" where
  "blocked fs old_file_path path = (os_path_exists fs path \<and> path \<noteq> old_file_path)"

lemma collision_loop_spec:
  "collision_loop fs folder old base nf np c = (nf', np') \<Longrightarrow>
   (if blocked fs old np
    then \<exists>k\<ge>c. nf' = suffixed base k \<and> np' = os_path_join folder (suffixed base k) \<and>
               \<not> blocked fs old np' \<and>
               (\<forall>j. c \<le> j \<and> j < k \<longrightarrow> blocked fs old (os_path_join folder (suffixed base j)))
    else nf' = nf \<and> np' = np)"
proof (induction fs folder old base nf np c rule: collision_loop.induct)
  case (1 fs folder old base nf np c)
  show ?case
  proof (cases "blocked fs old np")
    case False
    then have "collision_loop fs folder old base nf np c = (nf, np)"
      by (subst collision_loop.simps) (auto simp: blocked_def)
    with "1.prems" False show ?thesis by simp
  next
    case True
    let ?nf = "suffixed base c"
    let ?np = "os_path_join folder ?nf"
    from True have "collision_loop fs folder old base nf np c =
                    collision_loop fs folder old base ?nf ?np (c + 1)"
      by (subst collision_loop.simps) (auto simp: blocked_def)
    with "1.prems" have run: "collision_loop fs folder old base ?nf ?np (c + 1) = (nf', np')"
      by simp
    from True have cond: "os_path_exists fs np \<and> np \<noteq> old" by (simp add: blocked_def)
    note ih = "1.IH" [OF cond run]
    show ?thesis
    proof (cases "blocked fs old ?np")
      case False
      with ih have "nf' = ?nf \<and> np' = ?np" by simp
      with False True show ?thesis by auto
    next
      case b: True
      with ih obtain k where k: "c + 1 \<le> k" "nf' = suffixed base k"
        "np' = os_path_join folder (suffixed base k)" "\<not> blocked fs old np'"
        "\<forall>j. c + 1 \<le> j \<and> j < k \<longrightarrow> blocked fs old (os_path_join folder (suffixed base j))"
        by auto
      have all: "\<forall>j. c \<le> j \<and> j < k \<longrightarrow> blocked fs old (os_path_join folder (suffixed base j))"
      proof (intro allI impI)
        fix j assume j: "c \<le> j \<and> j < k"
        show "blocked fs old (os_path_join folder (suffixed base j))"
        proof (cases "j = c")
          case True with b show ?thesis by simp
        next
          case False with j k(5) show ?thesis by auto
        qed
      qed
      have "\<exists>k'\<ge>c. nf' = suffixed base k' \<and> np' = os_path_join folder (suffixed base k') \<and>
               \<not> blocked fs old np' \<and>
               (\<forall>j. c \<le> j \<and> j < k' \<longrightarrow> blocked fs old (os_path_join folder (suffixed base j)))"
        by (rule exI [of _ k]) (use k all in simp)
      with True show ?thesis by simp
    qed
  qed
qed




section \<open>Runs over a folder: what happens to the file system\<close>


lemma collision_loop_path:
  "np = os_path_join folder nf \<Longrightarrow>
   snd (collision_loop fs folder old base nf np c) =
   os_path_join folder (fst (collision_loop fs folder old base nf np c))"
proof -
  assume a: "np = os_path_join folder nf"
  obtain nf' np' where r: "collision_loop fs folder old base nf np c = (nf', np')"
    by (cases "collision_loop fs folder old base nf np c") auto
  from collision_loop_spec [OF r] a have "np' = os_path_join folder nf'"
    by (auto split: if_splits)
  with r show ?thesis by simp
qed

lemma skip_disk: "disk (skip msg st) = disk st"
  by (simp add: skip_def)

lemma rename_to_dry_run: "disk (rename_to True folder filename base st) = disk st"
  by (simp add: rename_to_def Let_def skip_disk split: prod.splits)


lemma process_file_dry_run: "disk (process_file True folder filename st) = disk st"
  by (simp add: process_file_def Let_def skip_disk rename_to_dry_run split: option.splits)


lemma process_file2_dry_run: "disk (process_file2 client True folder filename st) = disk st"
  by (simp add: process_file2_def Let_def skip_disk rename_to_dry_run)


lemma process_files_dry_run: "disk (process_files True folder listing st) = disk st"
  by (induction listing arbitrary: st) (simp_all add: process_file_dry_run)


lemma process_files2_dry_run: "disk (process_files2 client True folder listing st) = disk st"
  by (induction listing arbitrary: st) (simp_all add: process_file2_dry_run)



section \<open>Collision resolution never overwrites (C1)\<close>





section \<open>Dry runs (C2)\<close>

text \<open>
  C2. With \<open>dry_run\<close> true, \<open>rename_pdf_files_in_folder\<close> and \<open>rename_pdfs_in_folder\<close>
  return with the file system they were given, for every file system, every listing of
  the folder and every completion service, however many renames they report.
\<close>

theorem dry_run_leaves_file_system_unchanged:
  "disk (rename_pdf_files_in_folder fs0 listing folder_path True) = fs0 \<and>
   disk (rename_pdfs_in_folder client fs0 listing folder_path True) = fs0"
  by (simp add: rename_pdf_files_in_folder_def rename_pdfs_in_folder_def Let_def
      process_files_dry_run process_files2_dry_run)

section \<open>The pattern strategy on the specification's examples (C6, C7)\<close>








section \<open>Text that consists of white space only\<close>

text \<open>
  A text is \<open>stuck\<close> for a pattern that must start with a letter or a digit when it is
  empty or starts with white space. On a text of white space only, no pattern of the
  pattern strategy matches anywhere.
\<close>

declare search_from.simps [simp del]

definition stuck :: "string \<Rightarrow> bool" where
  "stuck s = (s = [] \<or> hd s \<in> set whitespace)"

lemma py_strip_Nil: "py_strip s = [] \<longleftrightarrow> set s \<subseteq> set whitespace"
proof -
  let ?P = "\<lambda>c. c \<in> set whitespace"
  have "py_strip s = [] \<longleftrightarrow> (\<forall>x\<in>set (dropWhile ?P s). ?P x)"
    by (simp add: py_strip_def strip_chars_def rstrip_chars_def lstrip_chars_def dropWhile_eq_Nil_conv)
  also have "\<dots> \<longleftrightarrow> dropWhile ?P s = []"
  proof
    assume a: "\<forall>x\<in>set (dropWhile ?P s). ?P x"
    show "dropWhile ?P s = []"
    proof (rule ccontr)
      assume ne: "dropWhile ?P s \<noteq> []"
      then have "\<not> ?P (hd (dropWhile ?P s))" by (rule hd_dropWhile)
      moreover from ne have "hd (dropWhile ?P s) \<in> set (dropWhile ?P s)" by simp
      ultimately show False using a by blast
    qed
  next
    assume e: "dropWhile ?P s = []"
    show "\<forall>x\<in>set (dropWhile ?P s). ?P x" unfolding e by simp
  qed
  also have "\<dots> \<longleftrightarrow> set s \<subseteq> set whitespace"
    by (auto simp: dropWhile_eq_Nil_conv)
  finally show ?thesis .
qed

lemma py_strip_hd: "py_strip s \<noteq> [] \<Longrightarrow> hd (py_strip s) \<notin> set whitespace"
  unfolding py_strip_def by (rule strip_chars_hd)

lemma split_first_not_Nil: "s \<noteq> [] \<Longrightarrow> hd s \<noteq> c \<Longrightarrow> split_first c s \<noteq> []"
  by (cases s) (auto simp: split_first_def split: list.splits)

lemma whitespace_letters_disjoint:
  "set whitespace \<inter> set ascii_upper = {}" "set whitespace \<inter> set ascii_lower = {}"
  by (simp_all add: whitespace_def ascii_upper_def ascii_lower_def)

lemma whitespace_digits_disjoint: "set whitespace \<inter> set digits = {}"
  by (simp add: whitespace_def digits_def)

lemma fold_case_other: "c \<notin> set ascii_upper \<Longrightarrow> fold_case c = c"
proof -
  assume "c \<notin> set ascii_upper"
  moreover have "length ascii_upper = length ascii_lower"
    by (simp add: ascii_upper_def ascii_lower_def)
  ultimately have "map_of (zip ascii_upper ascii_lower) c = None"
    by (simp add: map_of_zip_is_None)
  then show ?thesis by (simp add: fold_case_def)
qed

lemma fold_case_upper: "p \<in> set ascii_upper \<Longrightarrow> fold_case p \<in> set ascii_lower"
proof -
  assume p: "p \<in> set ascii_upper"
  have "length ascii_upper = length ascii_lower"
    by (simp add: ascii_upper_def ascii_lower_def)
  with p obtain l where l: "map_of (zip ascii_upper ascii_lower) p = Some l"
    using map_of_zip_is_Some by metis
  then have "(p, l) \<in> set (zip ascii_upper ascii_lower)" by (rule map_of_SomeD)
  then have "l \<in> set ascii_lower" by (rule set_zip_rightD)
  with l show ?thesis by (simp add: fold_case_def)
qed

lemma whitespace_no_letter:
  assumes c: "c \<in> set whitespace" and p: "p \<in> set (ascii_lower @ ascii_upper)"
  shows "\<not> same_char ic p c"
proof -
  from c have cu: "c \<notin> set ascii_upper" and cl: "c \<notin> set ascii_lower"
    using whitespace_letters_disjoint by blast+
  have f: "fold_case p \<in> set ascii_lower"
  proof (cases "p \<in> set ascii_upper")
    case True
    then show ?thesis by (rule fold_case_upper)
  next
    case False
    with p show ?thesis by (simp add: fold_case_other)
  qed
  from p cu cl have ne: "p \<noteq> c" by auto
  from f cl have "fold_case p \<noteq> c" by auto
  with cu ne show ?thesis by (simp add: same_char_def fold_case_other)
qed

lemma Lit_stuck:
  "stuck (remaining st) \<Longrightarrow> l \<noteq> [] \<Longrightarrow> hd l \<in> set (ascii_lower @ ascii_upper) \<Longrightarrow>
   rmatch ic pre (Lit l) st = []"
proof -
  assume s: "stuck (remaining st)" and l: "l \<noteq> []" "hd l \<in> set (ascii_lower @ ascii_upper)"
  from l obtain p ps where lp: "l = p # ps" by (cases l) auto
  have "\<not> lit_match ic l (remaining st)"
  proof (cases "remaining st")
    case Nil
    with lp show ?thesis by simp
  next
    case (Cons c cs)
    with s have "c \<in> set whitespace" by (simp add: stuck_def)
    with l lp have "\<not> same_char ic p c" using whitespace_no_letter by simp
    with lp Cons show ?thesis by simp
  qed
  then show ?thesis by simp
qed

lemma Rep_digits_stuck:
  "stuck (remaining st) \<Longrightarrow> 0 < m \<Longrightarrow> rmatch ic pre (Rep m n digits) st = []"
proof -
  assume s: "stuck (remaining st)" and m: "0 < m"
  have "takeWhile (\<lambda>c. c \<in> set digits) (remaining st) = []"
  proof (cases "remaining st")
    case Nil
    then show ?thesis by simp
  next
    case (Cons c cs)
    with s have "c \<in> set whitespace" by (simp add: stuck_def)
    then have "c \<notin> set digits" using whitespace_digits_disjoint by blast
    with Cons show ?thesis by simp
  qed
  with m show ?thesis by (simp add: Let_def split: option.splits)
qed

lemma search_from_stuck:
  assumes r: "\<And>pre s'. stuck s' \<Longrightarrow> rmatch ic pre r (MState [] s' []) = []"
    and s: "set s \<subseteq> set whitespace"
  shows "search_from ic r pre s = None"
  using s
proof (induction s arbitrary: pre)
  case Nil
  have "stuck []" by (simp add: stuck_def)
  then show ?case by (subst search_from.simps) (simp add: r)
next
  case (Cons c cs)
  then have "stuck (c # cs)" by (simp add: stuck_def)
  with Cons show ?case by (subst search_from.simps) (simp add: r)
qed

lemma Seq_Nil: "rmatch ic pre a st = [] \<Longrightarrow> rmatch ic pre (Seq a b) st = []"
  by simp

lemma Alt_Nil:
  "rmatch ic pre a st = [] \<Longrightarrow> rmatch ic pre b st = [] \<Longrightarrow> rmatch ic pre (Alt a b) st = []"
  by simp

lemma Grp_Nil: "rmatch ic pre a st = [] \<Longrightarrow> rmatch ic pre (Grp i a) st = []"
  by simp

lemma WordB_Seq_Nil: "rmatch ic pre b st = [] \<Longrightarrow> rmatch ic pre (Seq WordB b) st = []"
  by simp

lemma invoice_patterns_stuck:
  assumes "stuck s" and "(pattern, prefix) \<in> set invoice_patterns"
  shows "rmatch ic pre pattern (MState [] s []) = []"
proof -
  let ?st = "MState [] s []"
  from assms(1) have st: "stuck (remaining ?st)" by simp
  have lit: "rmatch ic pre (Lit l) ?st = []"
    if "l \<noteq> []" "hd l \<in> set (ascii_lower @ ascii_upper)" for l
    using st that by (rule Lit_stuck)
  have 1: "rmatch ic pre (Alt (Lit ''invoice'') (Lit ''inv'')) ?st = []"
    by (rule Alt_Nil; rule lit; simp add: ascii_lower_def ascii_upper_def)
  have 2: "rmatch ic pre (Alt (Lit ''order'') (Lit ''po'')) ?st = []"
    by (rule Alt_Nil; rule lit; simp add: ascii_lower_def ascii_upper_def)
  have 3: "rmatch ic pre (Lit ''Ref'') ?st = []"
    by (rule lit; simp add: ascii_lower_def ascii_upper_def)
  from assms(2) show ?thesis
    unfolding invoice_patterns_def number_tail_def
    by (auto simp del: rmatch.simps simp add: Seq_Nil 1 2 3)
qed

lemma date_patterns_stuck:
  assumes "stuck s" and "pattern \<in> set date_patterns"
  shows "rmatch ic pre pattern (MState [] s []) = []"
proof -
  let ?st = "MState [] s []"
  from assms(1) have st: "stuck (remaining ?st)" by simp
  have lit: "rmatch ic pre (Lit l) ?st = []"
    if "l \<noteq> []" "hd l \<in> set (ascii_lower @ ascii_upper)" for l
    using st that by (rule Lit_stuck)
  have rep: "rmatch ic pre (Rep m n digits) ?st = []" if "0 < m" for m n
    using st that by (rule Rep_digits_stuck)
  have months: "rmatch ic pre month_alternatives ?st = []"
    unfolding month_alternatives_def alt.simps
    by (intro Alt_Nil Seq_Nil lit) (simp_all add: ascii_lower_def ascii_upper_def)
  from assms(2) show ?thesis
    unfolding date_patterns_def
    by (auto simp del: rmatch.simps simp add: Seq_Nil WordB_Seq_Nil Grp_Nil rep months)
qed

lemma invoice_loop_whitespace:
  assumes ws: "set text_content \<subseteq> set whitespace"
    and ps: "set ps \<subseteq> set invoice_patterns"
  shows "invoice_loop ps text_content = []"
  using ps
proof (induction ps)
  case Nil
  show ?case by simp
next
  case (Cons p ps)
  obtain pattern prefix where p: "p = (pattern, prefix)" by (cases p)
  with Cons.prems have "(pattern, prefix) \<in> set invoice_patterns" by simp
  then have "re_search True pattern text_content = None"
    unfolding re_search_def
    by (intro search_from_stuck ws) (rule invoice_patterns_stuck)
  with Cons p show ?case by simp
qed

lemma date_loop_whitespace:
  assumes ws: "set text_content \<subseteq> set whitespace"
    and ps: "set ps \<subseteq> set date_patterns"
  shows "date_loop ps text_content found_date = found_date"
  using ps
proof (induction ps)
  case Nil
  show ?case by simp
next
  case (Cons pattern ps)
  then have "pattern \<in> set date_patterns" by simp
  then have "re_search False pattern text_content = None"
    unfolding re_search_def
    by (intro search_from_stuck ws) (rule date_patterns_stuck)
  with Cons show ?case by simp
qed

lemma generate_new_name_None_iff:
  "generate_new_name_from_content text_content = None \<longleftrightarrow> set text_content \<subseteq> set whitespace"
proof
  assume ws: "set text_content \<subseteq> set whitespace"
  then have parts: "invoice_loop invoice_patterns text_content = []"
    by (rule invoice_loop_whitespace) simp
  from ws have date: "find_date text_content = None"
    unfolding find_date_def by (rule date_loop_whitespace) simp
  from ws have "py_strip text_content = []" by (simp add: py_strip_Nil)
  then have "split_first CHR 0x0A (py_strip text_content) = []"
    by (simp add: split_first_def)
  with parts date show "generate_new_name_from_content text_content = None"
    by (simp add: generate_new_name_from_content_def)
next
  assume none: "generate_new_name_from_content text_content = None"
  show "set text_content \<subseteq> set whitespace"
  proof (rule ccontr)
    assume "\<not> set text_content \<subseteq> set whitespace"
    then have ne: "py_strip text_content \<noteq> []" by (simp add: py_strip_Nil)
    then have "hd (py_strip text_content) \<notin> set whitespace" by (rule py_strip_hd)
    then have "hd (py_strip text_content) \<noteq> CHR 0x0A" by (auto simp: whitespace_def)
    with ne have "split_first CHR 0x0A (py_strip text_content) \<noteq> []"
      by (rule split_first_not_Nil)
    moreover from ne have "text_content \<noteq> []" by (auto simp: py_strip_Nil)
    ultimately have "generate_new_name_from_content text_content \<noteq> None"
      by (simp add: generate_new_name_from_content_def Let_def split: option.splits)
    with none show False by simp
  qed
qed

section \<open>When the pattern strategy finds no name (C10)\<close>

lemma underscores_example: "generate_new_name_from_content ''____'' = Some []"
  by code_simp

lemma process_file_named:
  assumes pdf: "endswith (py_lower filename) ''.pdf''"
    and extracted: "extract_text_from_pdf (disk st) (os_path_join folder_path filename) = Some text_content"
    and name: "generate_new_name_from_content text_content = Some new_name_base"
  shows "process_file dry_run folder_path filename st =
           rename_to dry_run folder_path filename new_name_base
             (st\<lparr>pdf_files_found := pdf_files_found st + 1\<rparr>)"
  using assms by (simp add: process_file_def Let_def)

lemma rename_to_free_dry_run:
  assumes free: "\<not> os_path_exists (disk st) (os_path_join folder_path (base @ ''.pdf''))"
    and other: "os_path_join folder_path (base @ ''.pdf'') \<noteq> os_path_join folder_path filename"
  shows "rename_to True folder_path filename base st =
           st\<lparr>renamed_count := renamed_count st + 1,
              printed := printed st @ [WouldRename filename (base @ ''.pdf'')]\<rparr>"
proof -
  have "collision_loop (disk st) folder_path (os_path_join folder_path filename) base
          (base @ ''.pdf'') (os_path_join folder_path (base @ ''.pdf'')) 1 =
        (base @ ''.pdf'', os_path_join folder_path (base @ ''.pdf''))"
    using free by (subst collision_loop.simps) simp
  with other show ?thesis by (simp add: rename_to_def Let_def)
qed

text \<open>
  C10. \<open>generate_new_name_from_content\<close> returns \<open>None\<close> exactly on the texts that are
  empty or consist of white space only. On the text \<open>____\<close> it returns the empty
  string, which the caller's \<open>is None\<close> test lets through: in a dry run, when nothing
  named \<open>.pdf\<close> exists in the folder, the file is reported as to be renamed to
  \<open>.pdf\<close>.
\<close>

theorem empty_name_is_not_no_name:
  "(generate_new_name_from_content text_content = None \<longleftrightarrow> set text_content \<subseteq> set whitespace) \<and>
   generate_new_name_from_content ''____'' = Some [] \<and>
   (endswith (py_lower filename) ''.pdf'' \<and>
    extract_text_from_pdf (disk st) (os_path_join folder_path filename) = Some ''____'' \<and>
    \<not> os_path_exists (disk st) (os_path_join folder_path ''.pdf'') \<and>
    os_path_join folder_path ''.pdf'' \<noteq> os_path_join folder_path filename \<longrightarrow>
    process_file True folder_path filename st =
      st\<lparr>pdf_files_found := pdf_files_found st + 1, renamed_count := renamed_count st + 1,
         printed := printed st @ [WouldRename filename ''.pdf'']\<rparr>)"
proof (intro conjI impI)
  show "generate_new_name_from_content text_content = None \<longleftrightarrow> set text_content \<subseteq> set whitespace"
    by (rule generate_new_name_None_iff)
  show "generate_new_name_from_content ''____'' = Some []"
    by (rule underscores_example)
next
  assume a: "endswith (py_lower filename) ''.pdf'' \<and>
    extract_text_from_pdf (disk st) (os_path_join folder_path filename) = Some ''____'' \<and>
    \<not> os_path_exists (disk st) (os_path_join folder_path ''.pdf'') \<and>
    os_path_join folder_path ''.pdf'' \<noteq> os_path_join folder_path filename"
  let ?st = "st\<lparr>pdf_files_found := pdf_files_found st + 1\<rparr>"
  from a have "process_file True folder_path filename st = rename_to True folder_path filename [] ?st"
    using process_file_named [OF _ _ underscores_example] by blast
  also from a have "\<dots> = ?st\<lparr>renamed_count := renamed_count ?st + 1,
              printed := printed ?st @ [WouldRename filename ([] @ ''.pdf'')]\<rparr>"
    by (intro rename_to_free_dry_run) simp_all
  finally show "process_file True folder_path filename st =
      st\<lparr>pdf_files_found := pdf_files_found st + 1, renamed_count := renamed_count st + 1,
         printed := printed st @ [WouldRename filename ''.pdf'']\<rparr>"
    by simp
qed

definition underscore_folder :: filesystem where
  "underscore_folder = [(''d'', Directory), (''d/scan.pdf'', Pdf [''____''])]"

definition fresh_run :: "filesystem \<Rightarrow> run_state" where
  "fresh_run fs0 = \<lparr>disk = fs0, pdf_files_found = 0, renamed_count = 0, skipped_count = 0,
                    printed = []\<rparr>"

lemma underscore_folder_facts:
  "endswith (py_lower ''scan.pdf'') ''.pdf'' \<and>
   extract_text_from_pdf (disk (fresh_run underscore_folder)) (os_path_join ''d'' ''scan.pdf'') = Some ''____'' \<and>
   \<not> os_path_exists (disk (fresh_run underscore_folder)) (os_path_join ''d'' ''.pdf'') \<and>
   os_path_join ''d'' ''.pdf'' \<noteq> os_path_join ''d'' ''scan.pdf''"
  by code_simp

theorem empty_name_is_not_no_name_witness:
  "generate_new_name_from_content '' '' = None \<and>
   set '' '' \<subseteq> set whitespace \<and>
   printed (process_file True ''d'' ''scan.pdf'' (fresh_run underscore_folder)) =
     [WouldRename ''scan.pdf'' ''.pdf'']"
proof -
  note t = empty_name_is_not_no_name [of "'' ''" "''scan.pdf''" "fresh_run underscore_folder" "''d''"]
  have ws: "set '' '' \<subseteq> set whitespace" by (simp add: whitespace_def)
  with t have none: "generate_new_name_from_content '' '' = None" by blast
  from t underscore_folder_facts
  have "process_file True ''d'' ''scan.pdf'' (fresh_run underscore_folder) =
      (fresh_run underscore_folder)\<lparr>pdf_files_found := pdf_files_found (fresh_run underscore_folder) + 1,
         renamed_count := renamed_count (fresh_run underscore_folder) + 1,
         printed := printed (fresh_run underscore_folder) @ [WouldRename ''scan.pdf'' ''.pdf'']\<rparr>"
    by blast
  then have "printed (process_file True ''d'' ''scan.pdf'' (fresh_run underscore_folder)) =
     [WouldRename ''scan.pdf'' ''.pdf'']"
    by (simp add: fresh_run_def)
  with none ws show ?thesis by (intro conjI)
qed

section \<open>The character check of the service variant\<close>

lemma first_filtered:
  "(case filter Q xs of [] \<Rightarrow> None | st # _ \<Rightarrow> Some st) \<noteq> None \<longleftrightarrow> (\<exists>x\<in>set xs. Q x)"
proof (cases "filter Q xs")
  case Nil
  then show ?thesis by (simp add: filter_empty_conv)
next
  case (Cons a l)
  then have "a \<in> set (filter Q xs)" by simp
  then have "\<exists>x\<in>set xs. Q x" by auto
  with Cons show ?thesis by simp
qed

lemma fullmatch_class_plus:
  "re_fullmatch ic (Rep 1 None cs) name \<noteq> None \<longleftrightarrow> name \<noteq> [] \<and> set name \<subseteq> set cs"
proof -
  let ?P = "\<lambda>c. c \<in> set cs"
  let ?k = "length (takeWhile ?P name)"
  let ?st = "MState [] name []"
  have rem: "remaining (advance j ?st) = drop j name" for j
    by (simp add: advance_def)
  have all: "?k = length name \<longleftrightarrow> set name \<subseteq> set cs"
  proof
    assume "?k = length name"
    then have "takeWhile ?P name = name"
      by (metis append_eq_conv_conj takeWhile_dropWhile_id take_all order_refl)
    then show "set name \<subseteq> set cs" by (metis subsetI set_takeWhileD)
  next
    assume "set name \<subseteq> set cs"
    then have "takeWhile ?P name = name" by (auto simp: takeWhile_eq_all_conv)
    then show "?k = length name" by (rule arg_cong)
  qed
  have le: "?k \<le> length name" by (rule length_takeWhile_le)
  have "re_fullmatch ic (Rep 1 None cs) name \<noteq> None \<longleftrightarrow>
        (\<exists>st\<in>set (rmatch ic None (Rep 1 None cs) ?st). remaining st = [])"
    unfolding re_fullmatch_def by (rule first_filtered)
  also have "\<dots> \<longleftrightarrow> (\<exists>j. 1 \<le> j \<and> j \<le> ?k \<and> length name \<le> j)"
    by (auto simp: Let_def rem)
  also have "\<dots> \<longleftrightarrow> name \<noteq> [] \<and> ?k = length name"
  proof
    assume "\<exists>j. 1 \<le> j \<and> j \<le> ?k \<and> length name \<le> j"
    then obtain j where "1 \<le> j" "j \<le> ?k" "length name \<le> j" by blast
    with le have "?k = length name" "1 \<le> length name" by simp_all
    then show "name \<noteq> [] \<and> ?k = length name" by auto
  next
    assume a: "name \<noteq> [] \<and> ?k = length name"
    then have "1 \<le> length name" by (cases name) simp_all
    with a have "1 \<le> length name \<and> length name \<le> ?k \<and> length name \<le> length name" by simp
    then show "\<exists>j. 1 \<le> j \<and> j \<le> ?k \<and> length name \<le> j" by blast
  qed
  finally show ?thesis using all by simp
qed

lemma is_valid_filename_iff:
  "is_valid_filename name \<longleftrightarrow> name \<noteq> [] \<and> set name \<subseteq> set name_chars"
  unfolding is_valid_filename_def name_chars_def by (rule fullmatch_class_plus)


section \<open>Titles of the completion service (C9)\<close>

lemma hyphen_survives_sanitisation: "sanitize_filename ''a-b'' = ''a-b''"
  by code_simp

lemma hyphen_is_not_valid: "\<not> is_valid_filename ''a-b''"
  by code_simp

text \<open>
  C9. \<open>is_valid_filename\<close> holds exactly for the non-empty names made of letters A-Z and
  a-z, digits, spaces and underscores; a name with any other character, such as the
  hyphen that \<open>sanitize_filename\<close> leaves in place, is rejected. In the folder loop
  of the service variant a non-empty sanitised title that is rejected makes the loop
  print the unsupported-characters message, count the file as skipped, leave the file
  system as it is and go on with the remaining files; an accepted title goes to
  collision resolution.
\<close>

theorem service_title_accepted_iff_valid:
  "(is_valid_filename name \<longleftrightarrow> name \<noteq> [] \<and> set name \<subseteq> set name_chars) \<and>
   sanitize_filename ''a-b'' = ''a-b'' \<and> \<not> is_valid_filename ''a-b'' \<and>
   (endswith (py_lower filename) ''.pdf'' \<and>
    extract_text_from_pdf2 (disk st) (os_path_join folder_path filename) = Some text_content \<and>
    text_content \<noteq> [] \<and> service (take 4000 text_content) = Some content \<and>
    sanitize_filename (py_strip content) \<noteq> [] \<longrightarrow>
    process_files2 (Some service) dry_run folder_path (filename # listing) st =
      process_files2 (Some service) dry_run folder_path listing
        (if is_valid_filename (sanitize_filename (py_strip content))
         then rename_to dry_run folder_path filename (sanitize_filename (py_strip content))
                (st\<lparr>pdf_files_found := pdf_files_found st + 1\<rparr>)
         else skip (UnsupportedCharacters filename)
                (st\<lparr>pdf_files_found := pdf_files_found st + 1\<rparr>)))"
proof (intro conjI impI)
  show "is_valid_filename name \<longleftrightarrow> name \<noteq> [] \<and> set name \<subseteq> set name_chars"
    by (rule is_valid_filename_iff)
  show "sanitize_filename ''a-b'' = ''a-b''" by (rule hyphen_survives_sanitisation)
  show "\<not> is_valid_filename ''a-b''" by (rule hyphen_is_not_valid)
next
  assume a: "endswith (py_lower filename) ''.pdf'' \<and>
    extract_text_from_pdf2 (disk st) (os_path_join folder_path filename) = Some text_content \<and>
    text_content \<noteq> [] \<and> service (take 4000 text_content) = Some content \<and>
    sanitize_filename (py_strip content) \<noteq> []"
  then have title: "get_title_via_chatgpt (Some service) text_content =
                    Some (sanitize_filename (py_strip content))"
    by (simp add: get_title_via_chatgpt_def)
  with a have "process_file2 (Some service) dry_run folder_path filename st =
        (if is_valid_filename (sanitize_filename (py_strip content))
         then rename_to dry_run folder_path filename (sanitize_filename (py_strip content))
                (st\<lparr>pdf_files_found := pdf_files_found st + 1\<rparr>)
         else skip (UnsupportedCharacters filename)
                (st\<lparr>pdf_files_found := pdf_files_found st + 1\<rparr>))"
    by (simp add: process_file2_def Let_def)
  then show "process_files2 (Some service) dry_run folder_path (filename # listing) st =
      process_files2 (Some service) dry_run folder_path listing
        (if is_valid_filename (sanitize_filename (py_strip content))
         then rename_to dry_run folder_path filename (sanitize_filename (py_strip content))
                (st\<lparr>pdf_files_found := pdf_files_found st + 1\<rparr>)
         else skip (UnsupportedCharacters filename)
                (st\<lparr>pdf_files_found := pdf_files_found st + 1\<rparr>))"
    by simp
qed

text \<open>
  Two PDFs in a folder \<open>d\<close>; the service answers \<open>a-b\<close> for the first and \<open>Plan 9\<close> for
  the second.
\<close>

definition two_pdfs :: filesystem where
  "two_pdfs = [(''d'', Directory), (''d/one.pdf'', Pdf [''first'']), (''d/two.pdf'', Pdf [''second''])]"

definition hyphen_service :: "string \<Rightarrow> string option" where
  "hyphen_service trimmed = (if trimmed = ''first'' then Some ''a-b'' else Some ''Plan 9'')"

lemma two_pdfs_facts:
  "endswith (py_lower ''one.pdf'') ''.pdf'' \<and>
   extract_text_from_pdf2 (disk (fresh_run two_pdfs)) (os_path_join ''d'' ''one.pdf'') = Some ''first'' \<and>
   ''first'' \<noteq> [] \<and> hyphen_service (take 4000 ''first'') = Some ''a-b'' \<and>
   sanitize_filename (py_strip ''a-b'') \<noteq> []"
  by code_simp

lemma two_pdfs_title: "sanitize_filename (py_strip ''a-b'') = ''a-b''"
  by code_simp

lemma two_pdfs_rest:
  "printed (process_files2 (Some hyphen_service) False ''d'' [''two.pdf'']
     (skip (UnsupportedCharacters ''one.pdf'')
        ((fresh_run two_pdfs)\<lparr>pdf_files_found := pdf_files_found (fresh_run two_pdfs) + 1\<rparr>))) =
   [UnsupportedCharacters ''one.pdf'', Renamed ''two.pdf'' ''Plan 9.pdf'']"
  by code_simp

theorem service_title_accepted_iff_valid_witness:
  "\<not> is_valid_filename ''a-b'' \<and> \<not> set ''a-b'' \<subseteq> set name_chars \<and>
   printed (process_files2 (Some hyphen_service) False ''d'' [''one.pdf'', ''two.pdf'']
              (fresh_run two_pdfs)) =
     [UnsupportedCharacters ''one.pdf'', Renamed ''two.pdf'' ''Plan 9.pdf'']"
proof -
  note t = service_title_accepted_iff_valid [of "''a-b''" "''one.pdf''" "fresh_run two_pdfs" "''d''"
      "''first''" hyphen_service "''a-b''" False "[''two.pdf'']"]
  from t have invalid: "\<not> is_valid_filename ''a-b''" by blast
  with t have chars: "\<not> set ''a-b'' \<subseteq> set name_chars" by simp
  from t two_pdfs_facts
  have "process_files2 (Some hyphen_service) False ''d'' (''one.pdf'' # [''two.pdf'']) (fresh_run two_pdfs) =
      process_files2 (Some hyphen_service) False ''d'' [''two.pdf'']
        (if is_valid_filename (sanitize_filename (py_strip ''a-b''))
         then rename_to False ''d'' ''one.pdf'' (sanitize_filename (py_strip ''a-b''))
                ((fresh_run two_pdfs)\<lparr>pdf_files_found := pdf_files_found (fresh_run two_pdfs) + 1\<rparr>)
         else skip (UnsupportedCharacters ''one.pdf'')
                ((fresh_run two_pdfs)\<lparr>pdf_files_found := pdf_files_found (fresh_run two_pdfs) + 1\<rparr>))"
    by blast
  with invalid two_pdfs_rest
  have "printed (process_files2 (Some hyphen_service) False ''d'' [''one.pdf'', ''two.pdf'']
              (fresh_run two_pdfs)) =
     [UnsupportedCharacters ''one.pdf'', Renamed ''two.pdf'' ''Plan 9.pdf'']"
    by (simp only: two_pdfs_title if_False)
  with invalid chars show ?thesis by (intro conjI)
qed

section \<open>Empty text (C8)\<close>

lemma pattern_strategy_empty: "generate_new_name_from_content [] = None"
  by (simp add: generate_new_name_from_content_def)

lemma last_line_empty: "get_last_line [] = None"
  by (simp add: get_last_line_def splitlines_def)

text \<open>
  C8. On the empty text the pattern strategy and the last-line strategy return \<open>None\<close>,
  and the folder loop of the service variant skips a PDF whose extracted text is
  empty with the extraction message, whatever the completion service would answer:
  no title is asked for.
\<close>

theorem empty_text_gives_no_name:
  "generate_new_name_from_content [] = None \<and> get_last_line [] = None \<and>
   (endswith (py_lower filename) ''.pdf'' \<and>
    extract_text_from_pdf2 (disk st) (os_path_join folder_path filename) = Some [] \<longrightarrow>
    process_file2 client dry_run folder_path filename st =
      skip (SkippingExtraction filename) (st\<lparr>pdf_files_found := pdf_files_found st + 1\<rparr>))"
  by (simp add: pattern_strategy_empty last_line_empty process_file2_def Let_def)

definition blank_pdf :: filesystem where
  "blank_pdf = [(''d'', Directory), (''d/blank.pdf'', Pdf [[], []])]"

lemma blank_pdf_facts:
  "endswith (py_lower ''blank.pdf'') ''.pdf'' \<and>
   extract_text_from_pdf2 (disk (fresh_run blank_pdf)) (os_path_join ''d'' ''blank.pdf'') = Some []"
  by code_simp

theorem empty_text_gives_no_name_witness:
  "printed (process_file2 (Some hyphen_service) False ''d'' ''blank.pdf'' (fresh_run blank_pdf)) =
     [SkippingExtraction ''blank.pdf''] \<and>
   disk (process_file2 (Some hyphen_service) False ''d'' ''blank.pdf'' (fresh_run blank_pdf)) =
     blank_pdf"
proof -
  from empty_text_gives_no_name [of "''blank.pdf''" "fresh_run blank_pdf" "''d''"
      "Some hyphen_service" False] blank_pdf_facts
  have "process_file2 (Some hyphen_service) False ''d'' ''blank.pdf'' (fresh_run blank_pdf) =
      skip (SkippingExtraction ''blank.pdf'')
        ((fresh_run blank_pdf)\<lparr>pdf_files_found := pdf_files_found (fresh_run blank_pdf) + 1\<rparr>)"
    by blast
  then show ?thesis by (simp add: skip_def fresh_run_def)
qed

section \<open>Candidate names (C5)\<close>

lemma pattern_strategy_sanitized:
  "generate_new_name_from_content text_content = Some name \<Longrightarrow> \<exists>x. name = sanitize_filename x"
  by (auto simp: generate_new_name_from_content_def combine_parts_def Let_def
      split: if_splits option.splits)

lemma last_line_sanitized: "get_last_line text_content = Some name \<Longrightarrow> \<exists>x. name = sanitize_filename x"
  by (auto simp: get_last_line_def Let_def split: if_splits)

lemma service_title_sanitized:
  "get_title_via_chatgpt client text_content = Some name \<Longrightarrow> \<exists>x. name = sanitize_filename x"
  by (auto simp: get_title_via_chatgpt_def Let_def split: option.splits)

lemma last_line_example: "get_last_line ''a-b'' = Some ''a-b''"
  by code_simp

text \<open>
  C5 as stated fails: the last-line strategy returns \<open>a-b\<close> for the text \<open>a-b\<close>, and
  the hyphen is neither a letter, a digit, a space nor an underscore.
\<close>

theorem candidate_name_with_hyphen:
  "get_last_line ''a-b'' = Some ''a-b'' \<and> CHR ''-'' \<in> set ''a-b'' \<and> CHR ''-'' \<notin> set name_chars"
  using last_line_example
  by (simp add: name_chars_def ascii_upper_def ascii_lower_def digits_def)

text \<open>
  C5, amended. Every candidate base name produced by the pattern, last-line or service
  strategy is a result of \<open>sanitize_filename\<close>: it contains none of the characters
  \<open>\ / : * ? " < > |\<close>, has at most 200 characters, does not start with a space or an
  underscore and has no two consecutive underscores. It consists of letters, digits,
  spaces and underscores only when it also passes \<open>is_valid_filename\<close>, the check the
  service variant applies before it uses a name.
\<close>

theorem candidate_name_is_sanitized:
  assumes "generate_new_name_from_content text_content = Some name \<or>
           get_last_line text_content = Some name \<or>
           get_title_via_chatgpt client text_content = Some name"
  shows "set name \<inter> set invalid_chars = {} \<and> length name \<le> 200 \<and>
         \<not> starts_with_separator name \<and> \<not> consecutive_underscores name \<and>
         (is_valid_filename name \<longrightarrow> set name \<subseteq> set name_chars)"
proof -
  from assms obtain x where "name = sanitize_filename x"
    using pattern_strategy_sanitized last_line_sanitized service_title_sanitized by blast
  then show ?thesis
    using sanitize_filename_no_invalid [of x] sanitize_filename_length [of x]
      sanitize_filename_no_leading_separator [of x] sanitize_filename_single_underscores [of x]
    by (simp add: is_valid_filename_iff)
qed

theorem candidate_name_is_sanitized_witness:
  "get_last_line ''a-b'' = Some ''a-b'' \<and> set ''a-b'' \<inter> set invalid_chars = {} \<and>
   \<not> starts_with_separator ''a-b'' \<and> \<not> consecutive_underscores ''a-b''"
proof -
  have "generate_new_name_from_content ''a-b'' = Some ''a-b'' \<or>
        get_last_line ''a-b'' = Some ''a-b'' \<or>
        get_title_via_chatgpt None ''a-b'' = Some ''a-b''"
    using last_line_example by simp
  from candidate_name_is_sanitized [OF this] last_line_example
  show ?thesis by blast
qed

end
